theory Spec2Isabelle
  imports Main "HOL-Library.Word"
begin

unbundle bit_operations_syntax

section \<open>JavaScript values used by the two classes\<close>

text \<open>
  A JavaScript string is a sequence of 16-bit code units. The archive is built as a
  "binary string": one code unit per byte of the stream, so a position in the string is a
  byte position in the archive. Numbers are modelled as integers (every number the code
  handles is an integer below \<open>2^53\<close>); the bitwise operators first convert their
  operands with ToInt32 (the zero-fill shift with ToUint32), which is written out below.
\<close>

type_synonym jsstring = "16 word list"

definition toInt32 :: "int \<Rightarrow> int" where
  "toInt32 v = signed_take_bit 31 v"

definition toUint32 :: "int \<Rightarrow> int" where
  "toUint32 v = take_bit 32 v"

text \<open>\<^verbatim>\<open>a & b\<close>, \<^verbatim>\<open>a | b\<close>, \<^verbatim>\<open>a ^ b\<close>: result is an int32.\<close>

definition js_and :: "int \<Rightarrow> int \<Rightarrow> int" where
  "js_and a b = toInt32 a AND toInt32 b"

definition js_or :: "int \<Rightarrow> int \<Rightarrow> int" where
  "js_or a b = toInt32 a OR toInt32 b"

definition js_xor :: "int \<Rightarrow> int \<Rightarrow> int" where
  "js_xor a b = toInt32 a XOR toInt32 b"

text \<open>\<^verbatim>\<open>a << k\<close>, \<^verbatim>\<open>a >> k\<close> (sign-propagating), \<^verbatim>\<open>a >>> k\<close> (zero-fill); the
  shift count is taken modulo 32.\<close>

definition js_shl :: "int \<Rightarrow> nat \<Rightarrow> int" where
  "js_shl a k = toInt32 (push_bit (k mod 32) (toInt32 a))"

definition js_sar :: "int \<Rightarrow> nat \<Rightarrow> int" where
  "js_sar a k = drop_bit (k mod 32) (toInt32 a)"

definition js_ushr :: "int \<Rightarrow> nat \<Rightarrow> int" where
  "js_ushr a k = drop_bit (k mod 32) (toUint32 a)"

text \<open>\<^verbatim>\<open>String.fromCharCode(n)\<close> keeps the low 16 bits of \<open>n\<close>;
  \<^verbatim>\<open>s.charCodeAt(i)\<close> reads a code unit as a number.\<close>

definition fromCharCode :: "int \<Rightarrow> 16 word" where
  "fromCharCode n = word_of_int n"

definition charCode :: "16 word \<Rightarrow> int" where
  "charCode c = uint c"

section \<open>CRC32.js\<close>

text \<open>The object state: the cached table (\<open>null\<close> until the first \<open>evaluate\<close>) and the
  polynomial.\<close>

record crc32 =
  crc_table :: "int list option"
  MAGIC_NUMBER :: int

text \<open>\<^verbatim>\<open>initialize(polynomial)\<close>: \<^verbatim>\<open>polynomial || 0xEDB88320\<close>. The argument is
  \<open>None\<close> when it is omitted; the number 0 is falsy as well.\<close>

definition crc_initialize :: "int option \<Rightarrow> crc32" where
  "crc_initialize polynomial =
     \<lparr> crc_table = None,
       MAGIC_NUMBER = (case polynomial of
                         None \<Rightarrow> 0xEDB88320
                       | Some p \<Rightarrow> if p = 0 then 0xEDB88320 else p) \<rparr>"

text \<open>The inner loop of \<open>_buildCRCTable\<close>: \<open>k\<close> iterations left.\<close>

fun crc_bits :: "int \<Rightarrow> int \<Rightarrow> nat \<Rightarrow> int" where
  "crc_bits polynomial c 0 = c"
| "crc_bits polynomial c (Suc k) =
     crc_bits polynomial
       (if js_and c 1 \<noteq> 0 then js_xor polynomial (js_ushr c 1) else js_ushr c 1) k"

definition buildCRCTable :: "crc32 \<Rightarrow> int list" where
  "buildCRCTable this =
     map (\<lambda>n. crc_bits (MAGIC_NUMBER this) (int n) 8) [0 ..< 32 * 8]"

text \<open>\<open>_strToByte\<close>: every code unit masked to 8 bits.\<close>

definition strToByte :: "jsstring \<Rightarrow> int list" where
  "strToByte str = map (\<lambda>c. js_and (charCode c) 0xFF) str"

text \<open>A read of \<^verbatim>\<open>crcTable[i]\<close>; outside the array JavaScript yields \<open>undefined\<close>, which
  \<^verbatim>\<open>^\<close> converts to 0.\<close>

definition table_at :: "int list \<Rightarrow> int \<Rightarrow> int" where
  "table_at t i = (if 0 \<le> i \<and> nat i < length t then t ! nat i else 0)"

text \<open>The loop of \<open>evaluate\<close> over the bytes.\<close>

fun crc_loop :: "int list \<Rightarrow> int \<Rightarrow> int list \<Rightarrow> int" where
  "crc_loop crcTable crc [] = crc"
| "crc_loop crcTable crc (b # bytes) =
     crc_loop crcTable
       (js_xor (js_ushr crc 8) (table_at crcTable (js_and (js_xor crc b) 0xFF))) bytes"

text \<open>The argument of \<open>evaluate\<close> is a string or an array of bytes.\<close>

datatype crc_arg = ArgString jsstring | ArgBytes "int list"

text \<open>\<open>evaluate\<close> returns the checksum and the object with its table cached.\<close>

definition evaluate :: "crc32 \<Rightarrow> crc_arg \<Rightarrow> int \<times> crc32" where
  "evaluate this arg =
     (let bytes = (case arg of ArgString s \<Rightarrow> strToByte s | ArgBytes bs \<Rightarrow> bs);
          crcTable = (case crc_table this of
                        Some t \<Rightarrow> t
                      | None \<Rightarrow> buildCRCTable this);
          this' = this\<lparr>crc_table := Some crcTable\<rparr>;
          crc = js_xor 0 (-1);
          crc' = crc_loop crcTable crc bytes
      in (js_ushr (js_xor crc' (-1)) 0, this'))"

section \<open>Zipper: data and helpers\<close>

text \<open>\<open>FileData\<close>, as in the typedef at the head of the file.\<close>

record FileData =
  sys_id :: jsstring
  name :: jsstring
  data :: jsstring

text \<open>The fields of a \<open>Date\<close> that the two encoders read.\<close>

record jsdate =
  getFullYear :: int
  getMonth :: int
  getDate :: int
  getHours :: int
  getMinutes :: int
  getSeconds :: int

text \<open>The object \<open>this._zipDate\<close>.\<close>

record zip_date =
  zdate :: int
  ztime :: int

record zipper =
  CRC32 :: crc32
  files :: "FileData list"
  date :: "jsdate option"
  zipDate :: "zip_date option"

definition MAX_FILENAME_LENGTH :: nat where
  "MAX_FILENAME_LENGTH = 256"

definition MIME_TYPE :: jsstring where
  "MIME_TYPE = [0x61, 0x70, 0x70, 0x6C, 0x69, 0x63, 0x61, 0x74, 0x69, 0x6F, 0x6E, 0x2F,
                0x7A, 0x69, 0x70]"

definition ARCHIVE_EXTENSION :: jsstring where
  "ARCHIVE_EXTENSION = [0x7A, 0x69, 0x70]"

definition PKZIP_VERSION :: jsstring where
  "PKZIP_VERSION = [0x14, 0x00]"

definition zipper_initialize :: zipper where
  "zipper_initialize =
     \<lparr> CRC32 = crc_initialize None, files = [], date = None, zipDate = None \<rparr>"

text \<open>\<open>_getZipTime\<close> and \<open>_getZipDate\<close>; \<^verbatim>\<open>Math.floor(seconds / 2)\<close> is \<open>div\<close>.\<close>

definition getZipTime :: "jsdate \<Rightarrow> int" where
  "getZipTime d =
     (let hours = getHours d; minutes = getMinutes d; seconds = getSeconds d;
          zipSeconds = seconds div 2
      in js_or (js_or (js_shl hours 11) (js_shl minutes 5)) zipSeconds)"

definition getZipDate :: "jsdate \<Rightarrow> int" where
  "getZipDate d =
     (let year = getFullYear d; month = getMonth d + 1; day = getDate d;
          zipYear = year - 1980
      in js_or (js_or (js_shl zipYear 9) (js_shl month 5)) day)"

text \<open>\<open>_binToString\<close>.\<close>

definition binToString :: "int list \<Rightarrow> jsstring" where
  "binToString array = map (\<lambda>b. fromCharCode (js_and b 0xff)) array"

text \<open>\<open>_intToBytes\<close> on a number: the \<open>for\<close> loop, then the padding \<open>while\<close> loop (which
  never finds anything to add), then \<open>_binToString\<close>.\<close>

fun intToBytes_loop :: "int \<Rightarrow> nat \<Rightarrow> int list" where
  "intToBytes_loop v 0 = []"
| "intToBytes_loop v (Suc i) = js_and v 0xff # intToBytes_loop (js_sar v 8) i"

definition intToBytes :: "int \<Rightarrow> nat \<Rightarrow> jsstring" where
  "intToBytes v byteCount =
     (let bytes = intToBytes_loop v byteCount;
          bytes' = bytes @ replicate (byteCount - length bytes) 0
      in binToString bytes')"

text \<open>
  \<open>write\<close> hands \<open>_eoDirectory\<close> a string where a number is expected, so the argument of
  \<open>_intToBytes\<close> is a number or a string. On a string the first \<^verbatim>\<open>value & 0xff\<close> and
  \<^verbatim>\<open>value >>= 8\<close> convert it with ToNumber and then ToInt32. Of ToNumber on strings only
  this much is modelled: the empty string is 0, and a string whose first code unit is
  neither white space nor the start of a numeric literal (a digit, a sign, a dot, the
  \<open>I\<close> of \<open>Infinity\<close>) is \<open>NaN\<close>, which ToInt32 maps to 0. Other strings are outside the
  model: \<open>None\<close>.
\<close>

datatype jsval = Num int | Str jsstring

definition starts_numeric :: "16 word \<Rightarrow> bool" where
  "starts_numeric c =
     (c \<in> {0x09, 0x0A, 0x0B, 0x0C, 0x0D, 0x20, 0xA0, 0x1680, 0x180E, 0x2028, 0x2029,
            0x202F, 0x205F, 0x3000, 0xFEFF}
      \<or> (0x2000 \<le> c \<and> c \<le> 0x200A)
      \<or> (0x30 \<le> c \<and> c \<le> 0x39)
      \<or> c \<in> {0x2B, 0x2D, 0x2E, 0x49})"

fun valToInt32 :: "jsval \<Rightarrow> int option" where
  "valToInt32 (Num v) = Some (toInt32 v)"
| "valToInt32 (Str []) = Some 0"
| "valToInt32 (Str (c # cs)) = (if starts_numeric c then None else Some 0)"

definition intToBytes_val :: "jsval \<Rightarrow> nat \<Rightarrow> jsstring option" where
  "intToBytes_val v byteCount =
     (if byteCount = 0 then Some (intToBytes 0 0)
      else map_option (\<lambda>i. intToBytes i byteCount) (valToInt32 v))"

section \<open>Zipper: the three record builders\<close>

text \<open>
  \<open>_header\<close> and \<open>_directory\<close> read two fields of \<open>this\<close>: \<open>this.CRC32\<close>, which comes back
  with its table cached, and \<open>this._zipDate\<close>, which \<open>write\<close> has set before the loop.
\<close>

definition header :: "crc32 \<Rightarrow> zip_date \<Rightarrow> FileData \<Rightarrow> jsstring \<times> crc32" where
  "header crc zd file =
     (let (checksum, crc') = evaluate crc (ArgString (data file))
      in ([0x50, 0x4b, 0x03, 0x04]
          @ PKZIP_VERSION
          @ [0x00, 0x00]
          @ [0x00, 0x00]
          @ intToBytes (ztime zd) 2
          @ intToBytes (zdate zd) 2
          @ intToBytes checksum 4
          @ intToBytes (int (length (data file))) 4
          @ intToBytes (int (length (data file))) 4
          @ intToBytes (int (length (name file))) 2
          @ [0x00, 0x00]
          @ name file, crc'))"

definition directory :: "crc32 \<Rightarrow> zip_date \<Rightarrow> FileData \<Rightarrow> int \<Rightarrow> jsstring \<times> crc32" where
  "directory crc zd file offset =
     (let (checksum, crc') = evaluate crc (ArgString (data file))
      in ([0x50, 0x4B, 0x01, 0x02]
          @ PKZIP_VERSION
          @ PKZIP_VERSION
          @ [0x00, 0x00]
          @ [0x00, 0x00]
          @ intToBytes (ztime zd) 2
          @ intToBytes (zdate zd) 2
          @ intToBytes checksum 4
          @ intToBytes (int (length (data file))) 4
          @ intToBytes (int (length (data file))) 4
          @ intToBytes (int (length (name file))) 2
          @ [0x00, 0x00]
          @ [0x00, 0x00]
          @ [0x00, 0x00]
          @ [0x00, 0x00]
          @ [0x00, 0x00, 0x00, 0x00]
          @ intToBytes offset 4
          @ name file, crc'))"

definition eoDirectory :: "int \<Rightarrow> int \<Rightarrow> jsval \<Rightarrow> jsstring option" where
  "eoDirectory entries dir_size offset =
     (case intToBytes_val offset 4 of
        None \<Rightarrow> None
      | Some offset_bytes \<Rightarrow>
          Some ([0x50, 0x4B, 0x05, 0x06]
                @ [0x00, 0x00]
                @ [0x00, 0x00]
                @ intToBytes entries 2
                @ intToBytes entries 2
                @ intToBytes dir_size 4
                @ offset_bytes
                @ [0x00, 0x00]))"

section \<open>Zipper: add and write\<close>

text \<open>
  The platform the class runs on, as far as the two public methods use it: the rows of
  the attachment table, the predicates of the parameter validation, the existence of a
  record in a table, the clock, and the attachments written through
  \<open>GlideSysAttachment.write\<close> (table, record, file name, content type, content).
\<close>

record attachment =
  att_sys_id :: jsstring
  file_name :: jsstring
  getBytes :: "int list"

record platform =
  sys_attachment :: "jsstring \<Rightarrow> attachment option"
  tableExists :: "jsstring \<Rightarrow> bool"
  isEligibleSysID :: "jsstring \<Rightarrow> bool"
  record_exists :: "jsstring \<Rightarrow> jsstring \<Rightarrow> bool"
  clock :: jsdate
  written :: "(jsstring \<times> jsstring \<times> jsstring \<times> jsstring \<times> jsstring) list"

datatype error =
    NoAttachmentRecord
  | InvalidTable
  | InvalidRecord
  | InvalidFilename
  | NoTargetRecord
  | UnsupportedPlatform

definition add :: "platform \<Rightarrow> zipper \<Rightarrow> jsstring \<Rightarrow> error + zipper" where
  "add p this attachment_id =
     (case sys_attachment p attachment_id of
        None \<Rightarrow> Inl NoAttachmentRecord
      | Some grAttachment \<Rightarrow>
          Inr (this\<lparr>files := files this @
                 [\<lparr> sys_id = att_sys_id grAttachment,
                    name = take (MAX_FILENAME_LENGTH - 1) (file_name grAttachment),
                    data = binToString (getBytes grAttachment) \<rparr>]\<rparr>))"

text \<open>The loop of \<open>write\<close> over \<open>this.files\<close>, with the three variables it updates.\<close>

fun write_loop ::
  "crc32 \<Rightarrow> zip_date \<Rightarrow> FileData list \<Rightarrow> jsstring \<Rightarrow> jsstring \<Rightarrow> int
     \<Rightarrow> (jsstring \<times> jsstring \<times> int) \<times> crc32" where
  "write_loop crc zd [] out dir offset = ((out, dir, offset), crc)"
| "write_loop crc zd (file # rest) out dir offset =
     (let (h, crc1) = header crc zd file;
          out1 = out @ h;
          out2 = out1 @ data file;
          (d, crc2) = directory crc1 zd file offset;
          dir' = dir @ d;
          offset' = offset + int (length out2)
      in write_loop crc2 zd rest out2 dir' offset')"

text \<open>
  Lines 89 to 124 of \<open>write\<close>: the timestamp, the loop, the central directory and its
  end record. The result is the archive (the variable \<open>data\<close>) and the updated object.
\<close>

definition serialize :: "zipper \<Rightarrow> jsdate \<Rightarrow> (jsstring \<times> zipper) option" where
  "serialize this now =
     (let zd = \<lparr> zdate = getZipDate now, ztime = getZipTime now \<rparr>;
          ((out, dir, offset), crc') = write_loop (CRC32 this) zd (files this) [] [] 0;
          out' = out @ dir
      in case eoDirectory (int (length (files this))) (int (length dir)) (Str dir) of
           None \<Rightarrow> None
         | Some eocd \<Rightarrow>
             Some (out' @ eocd,
                   this\<lparr>CRC32 := crc', date := Some now, zipDate := Some zd\<rparr>))"

text \<open>\<^verbatim>\<open>gs.nil(x)\<close>: \<open>null\<close>, \<open>undefined\<close> or the empty string.\<close>

definition nil :: "jsstring option \<Rightarrow> bool" where
  "nil x = (case x of None \<Rightarrow> True | Some s \<Rightarrow> s = [])"

definition endsWith :: "jsstring \<Rightarrow> jsstring \<Rightarrow> bool" where
  "endsWith s suf =
     (length suf \<le> length s \<and> drop (length s - length suf) s = suf)"

text \<open>The string behind an argument that \<open>gs.nil\<close> has let through.\<close>

definition str_of :: "jsstring option \<Rightarrow> jsstring" where
  "str_of x = (case x of None \<Rightarrow> [] | Some s \<Rightarrow> s)"

text \<open>
  \<open>write\<close>. The result is what the call throws or returns, the object and the platform
  afterwards. The call of \<open>attachment.write\<close> is commented out in the source, so no
  branch extends \<open>written\<close> and none returns an identifier.
\<close>

definition zipper_write ::
  "platform \<Rightarrow> zipper \<Rightarrow> jsstring option \<Rightarrow> jsstring option \<Rightarrow> jsstring option
     \<Rightarrow> ((error + jsstring) \<times> zipper \<times> platform) option" where
  "zipper_write p this table record filename =
     (if nil table \<or> \<not> tableExists p (str_of table)
        then Some (Inl InvalidTable, this, p)
      else if nil record \<or> \<not> isEligibleSysID p (str_of record)
        then Some (Inl InvalidRecord, this, p)
      else if nil filename
        then Some (Inl InvalidFilename, this, p)
      else
        (let filename' =
               (if \<not> endsWith (str_of filename) ([0x2E] @ ARCHIVE_EXTENSION)
                then str_of filename @ [0x2E] @ ARCHIVE_EXTENSION else str_of filename)
         in case serialize this (clock p) of
              None \<Rightarrow> None
            | Some (archive, this') \<Rightarrow>
                if \<not> record_exists p (str_of table) (str_of record)
                  then Some (Inl NoTargetRecord, this', p)
                else Some (Inl UnsupportedPlatform, this', p)))"

section \<open>Auxiliary notions for the statements\<close>

text \<open>The object after any call of \<open>evaluate\<close>: the table is cached.\<close>

definition crc_cached :: "crc32 \<Rightarrow> crc32" where
  "crc_cached c =
     c\<lparr>crc_table := Some (case crc_table c of Some t \<Rightarrow> t | None \<Rightarrow> buildCRCTable c)\<rparr>"

text \<open>
  Where entry \<open>i\<close> really starts in the emitted stream: after the local header (30 bytes
  and the name) and the data of each entry before it. The central directory starts after
  the blocks of all entries; its record \<open>i\<close> comes after the records (46 bytes and the
  name) of the entries before it.
\<close>

definition block_length :: "FileData \<Rightarrow> nat" where
  "block_length f = 30 + length (name f) + length (data f)"

definition entry_position :: "FileData list \<Rightarrow> nat \<Rightarrow> nat" where
  "entry_position fs i = sum_list (map block_length (take i fs))"

definition record_position :: "FileData list \<Rightarrow> nat \<Rightarrow> nat" where
  "record_position fs i =
     entry_position fs (length fs) + sum_list (map (\<lambda>f. 46 + length (name f)) (take i fs))"

text \<open>The offsets that the loop of \<open>write\<close> hands to \<open>_directory\<close>, entry by entry, from
  the length of the output so far and the value of \<open>offset\<close>.\<close>

fun loop_offsets :: "nat \<Rightarrow> int \<Rightarrow> FileData list \<Rightarrow> int list" where
  "loop_offsets len offset [] = []"
| "loop_offsets len offset (f # fs) =
     offset # loop_offsets (len + block_length f) (offset + int (len + block_length f)) fs"

section \<open>Sample inputs\<close>

definition sample_date :: jsdate where
  "sample_date =
     \<lparr> getFullYear = 2024, getMonth = 8, getDate = 27,
       getHours = 1, getMinutes = 48, getSeconds = 30 \<rparr>"

text \<open>A file named \<open>a\<close> holding the two bytes of \<open>hi\<close>.\<close>

definition sample_file :: FileData where
  "sample_file = \<lparr> sys_id = [0x31], name = [0x61], data = binToString [0x68, 0x69] \<rparr>"

definition one_file :: zipper where
  "one_file = zipper_initialize\<lparr>files := [sample_file]\<rparr>"

definition three_files :: zipper where
  "three_files = zipper_initialize\<lparr>files := [sample_file, sample_file, sample_file]\<rparr>"

text \<open>An attachment with a name of 300 characters.\<close>

definition long_attachment :: attachment where
  "long_attachment =
     \<lparr> att_sys_id = [0x33], file_name = replicate 300 0x61, getBytes = [0x68, 0x69] \<rparr>"

text \<open>A platform with this attachment, one table \<open>t\<close> and one record \<open>r\<close> in it.\<close>

definition sample_platform :: platform where
  "sample_platform =
     \<lparr> sys_attachment =
         (\<lambda>i. if i = [0x33] then Some long_attachment else None),
       tableExists = (\<lambda>t. t = [0x74]),
       isEligibleSysID = (\<lambda>r. r = [0x72]),
       record_exists = (\<lambda>t r. t = [0x74] \<and> r = [0x72]),
       clock = sample_date,
       written = [] \<rparr>"

section \<open>Basic facts about the helpers\<close>

lemma length_binToString: "length (binToString xs) = length xs"
  by (simp add: binToString_def)

lemma length_intToBytes_loop: "length (intToBytes_loop v n) = n"
  by (induction n arbitrary: v) simp_all

lemma length_intToBytes: "length (intToBytes v n) = n"
  by (simp add: intToBytes_def Let_def length_binToString length_intToBytes_loop)

lemma evaluate_snd: "snd (evaluate c a) = crc_cached c"
  by (simp add: evaluate_def crc_cached_def Let_def split: option.splits)

lemma evaluate_cached: "fst (evaluate (crc_cached c) a) = fst (evaluate c a)"
  by (simp add: evaluate_def crc_cached_def Let_def split: option.splits)

lemma crc_cached_idem: "crc_cached (crc_cached c) = crc_cached c"
  by (simp add: crc_cached_def)

lemma table_at_build:
  "table_at (buildCRCTable c) 255 = crc_bits (MAGIC_NUMBER c) 255 8"
  by (simp add: table_at_def buildCRCTable_def)

lemma crc_bits_255: "crc_bits 0xEDB88320 255 8 = 0x2D02EF8D"
  by code_simp

section \<open>The loop of write in closed form\<close>

text \<open>
  The checksum does not depend on whether the table is cached, so every header and every
  directory record can be written with the object as it was before the loop.
\<close>

lemma header_snd: "snd (header c zd f) = crc_cached c"
  using evaluate_snd [of c "ArgString (data f)"]
  by (simp add: header_def case_prod_beta)

lemma header_cached: "fst (header (crc_cached c) zd f) = fst (header c zd f)"
  using evaluate_cached [of c "ArgString (data f)"]
  by (simp add: header_def case_prod_beta)

lemma directory_snd: "snd (directory c zd f off) = crc_cached c"
  using evaluate_snd [of c "ArgString (data f)"]
  by (simp add: directory_def case_prod_beta)

lemma directory_cached: "fst (directory (crc_cached c) zd f off) = fst (directory c zd f off)"
  using evaluate_cached [of c "ArgString (data f)"]
  by (simp add: directory_def case_prod_beta)

lemma length_header: "length (fst (header c zd f)) = 30 + length (name f)"
  by (simp add: header_def PKZIP_VERSION_def length_intToBytes case_prod_beta)

lemma length_directory: "length (fst (directory c zd f off)) = 46 + length (name f)"
  by (simp add: directory_def PKZIP_VERSION_def length_intToBytes case_prod_beta)

lemma write_loop_step:
  "write_loop c zd (f # fs) out dir off =
     write_loop (crc_cached c) zd fs (out @ fst (header c zd f) @ data f)
       (dir @ fst (directory c zd f off))
       (off + int (length out + block_length f))"
proof -
  obtain h c1 where h: "header c zd f = (h, c1)" by (cases "header c zd f")
  obtain d c2 where d: "directory c1 zd f off = (d, c2)" by (cases "directory c1 zd f off")
  have c1: "c1 = crc_cached c" using header_snd [of c zd f] h by simp
  have c2: "c2 = crc_cached c" using directory_snd [of c1 zd f off] d c1 by (simp add: crc_cached_idem)
  have d': "d = fst (directory c zd f off)"
    using d c1 directory_cached [of c zd f off] by simp
  have h': "h = fst (header c zd f)" using h by simp
  have len: "length h = 30 + length (name f)" using length_header [of c zd f] h by simp
  show ?thesis
    unfolding write_loop.simps h d Let_def prod.case
    by (simp add: c2 d' h' len block_length_def length_header)
qed

lemma write_loop_out:
  "fst (fst (write_loop c zd fs out dir off)) =
     out @ concat (map (\<lambda>f. fst (header c zd f) @ data f) fs)"
proof (induction fs arbitrary: c out dir off)
  case Nil
  show ?case by simp
next
  case (Cons f fs)
  show ?case
    unfolding write_loop_step Cons.IH
    by (simp add: header_cached)
qed

lemma write_loop_dir:
  "fst (snd (fst (write_loop c zd fs out dir off))) =
     dir @ concat (map2 (\<lambda>f x. fst (directory c zd f x)) fs (loop_offsets (length out) off fs))"
proof (induction fs arbitrary: c out dir off)
  case Nil
  show ?case by simp
next
  case (Cons f fs)
  show ?case
    unfolding write_loop_step Cons.IH
    by (simp add: directory_cached length_header block_length_def)
qed

lemma length_loop_offsets: "length (loop_offsets n off fs) = length fs"
  by (induction fs arbitrary: n off) simp_all

section \<open>The bytes of a field\<close>

lemma toInt32_drop_bit: "toInt32 (drop_bit n (toInt32 v)) = drop_bit n (toInt32 v)"
  unfolding toInt32_def
proof (rule bit_eqI)
  fix k
  have m: "min 31 (n + min 31 k) = min (31::nat) (n + k)"
    by (simp add: min_def)
  show "bit (signed_take_bit 31 (drop_bit n (signed_take_bit 31 v))) k
          = bit (drop_bit n (signed_take_bit 31 v)) k"
    by (simp add: bit_simps m)
qed

lemma js_and_255: "js_and v 255 = take_bit 8 v"
proof -
  have "signed_take_bit 31 v AND 255 = take_bit 8 (signed_take_bit 31 v)"
    by (simp add: take_bit_eq_mask mask_eq_exp_minus_1)
  also have "\<dots> = take_bit 8 v"
    by (simp add: take_bit_signed_take_bit)
  finally show ?thesis
    by (simp add: js_and_def toInt32_def)
qed

lemma intToBytes_loop_map:
  "intToBytes_loop v n = map (\<lambda>k. take_bit 8 (drop_bit (8 * k) (toInt32 v))) [0..<n]"
proof (induction n arbitrary: v)
  case 0
  show ?case by simp
next
  case (Suc n)
  have sar: "toInt32 (js_sar v 8) = drop_bit 8 (toInt32 v)"
    by (simp add: js_sar_def toInt32_drop_bit)
  have hd: "js_and v 255 = take_bit 8 (drop_bit (8 * 0) (toInt32 v))"
    by (simp add: js_and_255 toInt32_def take_bit_signed_take_bit)
  have "intToBytes_loop v (Suc n) = js_and v 255 # intToBytes_loop (js_sar v 8) n"
    by simp
  also have "\<dots> = take_bit 8 (drop_bit (8 * 0) (toInt32 v))
                 # map (\<lambda>k. take_bit 8 (drop_bit (8 * k) (drop_bit 8 (toInt32 v)))) [0..<n]"
    by (simp only: hd Suc.IH sar)
  also have "\<dots> = map (\<lambda>k. take_bit 8 (drop_bit (8 * k) (toInt32 v))) [0..<Suc n]"
    by (simp add: map_upt_Suc add.commute del: upt_Suc)
  finally show ?case .
qed

lemma byte_of_toInt32:
  "k < 4 \<Longrightarrow> take_bit 8 (drop_bit (8 * k) (toInt32 v)) = v div 2 ^ (8 * k) mod 256"
proof -
  assume k: "k < 4"
  have "take_bit 8 (drop_bit (8 * k) (toInt32 v))
          = drop_bit (8 * k) (take_bit (8 + 8 * k) (signed_take_bit 31 v))"
    by (simp add: take_bit_drop_bit toInt32_def)
  also have "\<dots> = drop_bit (8 * k) (take_bit (8 + 8 * k) v)"
    using k by (simp add: take_bit_signed_take_bit)
  also have "\<dots> = take_bit 8 (drop_bit (8 * k) v)"
    by (simp add: take_bit_drop_bit)
  also have "\<dots> = v div 2 ^ (8 * k) mod 256"
    by (simp add: take_bit_eq_mod drop_bit_eq_div)
  finally show ?thesis .
qed

lemma uint_fromCharCode_byte: "uint (fromCharCode (js_and b 255)) = b mod 256"
proof -
  have "uint (word_of_int (take_bit 8 b) :: 16 word) = take_bit 16 (take_bit 8 b)"
    by (simp add: uint_word_of_int_eq)
  also have "\<dots> = b mod 256"
    by (simp add: take_bit_eq_mod)
  finally show ?thesis by (simp add: fromCharCode_def js_and_255)
qed

lemma uint_intToBytes_4:
  "map uint (intToBytes v 4) =
     [v mod 256, v div 256 mod 256, v div 65536 mod 256, v div 16777216 mod 256]"
proof -
  have up: "[0..<4] = [0, 1, 2, 3::nat]" by (simp add: upt_rec)
  have "map uint (intToBytes v 4)
          = map (\<lambda>b. b mod 256) (intToBytes_loop v 4)"
    by (simp add: intToBytes_def Let_def binToString_def length_intToBytes_loop
          uint_fromCharCode_byte comp_def)
  also have "\<dots> = map (\<lambda>k. v div 2 ^ (8 * k) mod 256) [0..<4]"
    unfolding intToBytes_loop_map by (simp add: comp_def byte_of_toInt32)
  finally show ?thesis by (simp add: up)
qed


lemma intToBytes_0_4: "intToBytes 0 4 = [0, 0, 0, 0]"
  by code_simp

lemma intToBytes_0_2: "intToBytes 0 2 = [0, 0]"
  by code_simp

section \<open>The layout of the archive\<close>

lemma field_in_concat:
  assumes "i < length xss" and "k + m \<le> length (xss ! i)"
  shows "take m (drop (length (concat (take i xss)) + k) (concat xss @ rest))
           = take m (drop k (xss ! i))"
proof -
  have "concat xss = concat (take i xss) @ xss ! i @ concat (drop (Suc i) xss)"
    using assms(1) by (metis concat.simps(2) concat_append id_take_nth_drop)
  then have "drop (length (concat (take i xss)) + k) (concat xss @ rest)
          = drop k (xss ! i) @ concat (drop (Suc i) xss) @ rest"
    using assms(2) by simp
  then show ?thesis using assms(2) by simp
qed

lemma length_concat_blocks:
  "length (concat (map (\<lambda>f. fst (header c zd f) @ data f) fs)) = sum_list (map block_length fs)"
  by (induction fs) (simp_all add: length_header block_length_def)

lemma directory_starts: "\<exists>r. fst (directory c zd f off) = 0x50 # r"
  by (simp add: directory_def case_prod_beta)

lemma not_starts_numeric_P: "\<not> starts_numeric 0x50"
  by (simp add: starts_numeric_def)

lemma valToInt32_dir:
  "valToInt32 (Str (concat (map2 (\<lambda>f x. fst (directory c zd f x)) fs (loop_offsets n off fs)))) = Some 0"
proof (cases fs)
  case Nil
  then show ?thesis by simp
next
  case (Cons f fs')
  obtain r where "fst (directory c zd f off) = 0x50 # r"
    using directory_starts by blast
  then show ?thesis using Cons by (simp add: not_starts_numeric_P)
qed

lemma length_concat_records:
  "length xs = length fs \<Longrightarrow>
   length (concat (map2 (\<lambda>f x. fst (directory c zd f x)) fs xs))
     = sum_list (map (\<lambda>f. 46 + length (name f)) fs)"
  by (induction fs xs rule: list_induct2') (simp_all add: length_directory)

lemma serialize_out:
  "map_option fst (serialize this now) =
     Some (concat (map (\<lambda>f. fst (header (CRC32 this)
                                 \<lparr>zdate = getZipDate now, ztime = getZipTime now\<rparr> f) @ data f)
                    (files this))
           @ concat (map2 (\<lambda>f x. fst (directory (CRC32 this)
                                 \<lparr>zdate = getZipDate now, ztime = getZipTime now\<rparr> f x))
                      (files this) (loop_offsets 0 0 (files this)))
           @ [0x50, 0x4B, 0x05, 0x06, 0, 0, 0, 0]
           @ intToBytes (int (length (files this))) 2
           @ intToBytes (int (length (files this))) 2
           @ intToBytes (int (sum_list (map (\<lambda>f. 46 + length (name f)) (files this)))) 4
           @ [0, 0, 0, 0, 0, 0])"
proof -
  let ?zd = "\<lparr>zdate = getZipDate now, ztime = getZipTime now\<rparr>"
  let ?dir = "concat (map2 (\<lambda>f x. fst (directory (CRC32 this) ?zd f x))
                      (files this) (loop_offsets 0 0 (files this)))"
  obtain out dir off c' where
    w: "write_loop (CRC32 this) ?zd (files this) [] [] 0 = ((out, dir, off), c')"
    by (metis prod.exhaust)
  have out: "out = concat (map (\<lambda>f. fst (header (CRC32 this) ?zd f) @ data f) (files this))"
    using write_loop_out [of "CRC32 this" ?zd "files this" "[]" "[]" 0] w by simp
  have dir: "dir = ?dir"
    using write_loop_dir [of "CRC32 this" ?zd "files this" "[]" "[]" 0] w by simp
  have len: "length ?dir = sum_list (map (\<lambda>f. 46 + length (name f)) (files this))"
    by (rule length_concat_records) (simp add: length_loop_offsets)
  have v: "valToInt32 (Str ?dir) = Some 0"
    by (rule valToInt32_dir)
  have e: "eoDirectory (int (length (files this))) (int (length ?dir)) (Str ?dir)
             = Some ([0x50, 0x4B, 0x05, 0x06, 0, 0, 0, 0]
                     @ intToBytes (int (length (files this))) 2
                     @ intToBytes (int (length (files this))) 2
                     @ intToBytes (int (length ?dir)) 4
                     @ [0, 0, 0, 0, 0, 0])"
    by (simp add: eoDirectory_def intToBytes_val_def v intToBytes_0_4)
  show ?thesis
    unfolding serialize_def Let_def w prod.case dir e option.case
    by (simp add: out len)
qed

lemma serialize_returns: "\<exists>out this'. serialize this now = Some (out, this')"
  using serialize_out [of this now] by (cases "serialize this now") auto

lemma header_layout:
  "take 4 (fst (header c zd f)) = [0x50, 0x4b, 0x03, 0x04]"
  "take 2 (drop 10 (fst (header c zd f))) = intToBytes (ztime zd) 2"
  "take 2 (drop 12 (fst (header c zd f))) = intToBytes (zdate zd) 2"
  "take 4 (drop 18 (fst (header c zd f))) = intToBytes (int (length (data f))) 4"
  "take 4 (drop 22 (fst (header c zd f))) = intToBytes (int (length (data f))) 4"
  "take 2 (drop 26 (fst (header c zd f))) = intToBytes (int (length (name f))) 2"
  "drop 30 (fst (header c zd f)) = name f"
  by (simp_all add: header_def case_prod_beta PKZIP_VERSION_def length_intToBytes)

lemma directory_layout:
  "take 4 (fst (directory c zd f off)) = [0x50, 0x4B, 0x01, 0x02]"
  "take 2 (drop 12 (fst (directory c zd f off))) = intToBytes (ztime zd) 2"
  "take 2 (drop 14 (fst (directory c zd f off))) = intToBytes (zdate zd) 2"
  "take 4 (drop 20 (fst (directory c zd f off))) = intToBytes (int (length (data f))) 4"
  "take 4 (drop 24 (fst (directory c zd f off))) = intToBytes (int (length (data f))) 4"
  "take 2 (drop 28 (fst (directory c zd f off))) = intToBytes (int (length (name f))) 2"
  "take 4 (drop 42 (fst (directory c zd f off))) = intToBytes off 4"
  "drop 46 (fst (directory c zd f off)) = name f"
  by (simp_all add: directory_def case_prod_beta PKZIP_VERSION_def length_intToBytes)

lemma serialize_local_field:
  assumes s: "serialize this now = Some (out, this')"
    and i: "i < length (files this)"
    and k: "k + m \<le> 30"
  shows "take m (drop (entry_position (files this) i + k) out)
           = take m (drop k (fst (header (CRC32 this)
                 \<lparr>zdate = getZipDate now, ztime = getZipTime now\<rparr> (files this ! i))))"
proof -
  let ?zd = "\<lparr>zdate = getZipDate now, ztime = getZipTime now\<rparr>"
  let ?blk = "\<lambda>f. fst (header (CRC32 this) ?zd f) @ data f"
  let ?blocks = "map ?blk (files this)"
  obtain rest where out: "out = concat ?blocks @ rest"
    using serialize_out [of this now] s by simp
  have pos: "entry_position (files this) i = length (concat (take i ?blocks))"
    by (simp add: entry_position_def take_map length_concat_blocks)
  have len: "k + m \<le> length (?blocks ! i)"
    using i k by (simp add: length_header)
  have "take m (drop (entry_position (files this) i + k) out) = take m (drop k (?blocks ! i))"
    unfolding out pos using i len by (intro field_in_concat) simp_all
  also have "\<dots> = take m (drop k (fst (header (CRC32 this) ?zd (files this ! i))))"
    using i k by (simp add: length_header)
  finally show ?thesis .
qed

lemma serialize_record_field:
  assumes s: "serialize this now = Some (out, this')"
    and i: "i < length (files this)"
    and k: "k + m \<le> 46"
  shows "take m (drop (record_position (files this) i + k) out)
           = take m (drop k (fst (directory (CRC32 this)
                 \<lparr>zdate = getZipDate now, ztime = getZipTime now\<rparr> (files this ! i)
                 (loop_offsets 0 0 (files this) ! i))))"
proof -
  let ?zd = "\<lparr>zdate = getZipDate now, ztime = getZipTime now\<rparr>"
  let ?blk = "\<lambda>f. fst (header (CRC32 this) ?zd f) @ data f"
  let ?blocks = "concat (map ?blk (files this))"
  let ?offs = "loop_offsets 0 0 (files this)"
  let ?recs = "map2 (\<lambda>f x. fst (directory (CRC32 this) ?zd f x)) (files this) ?offs"
  obtain rest where out: "out = ?blocks @ concat ?recs @ rest"
    using serialize_out [of this now] s by simp
  have lb: "length ?blocks = entry_position (files this) (length (files this))"
    by (simp add: entry_position_def length_concat_blocks)
  have tk: "take i ?recs = map2 (\<lambda>f x. fst (directory (CRC32 this) ?zd f x))
                              (take i (files this)) (take i ?offs)"
    by (simp add: take_map take_zip)
  have lr: "length (concat (take i ?recs))
              = sum_list (map (\<lambda>f. 46 + length (name f)) (take i (files this)))"
    unfolding tk by (rule length_concat_records) (simp add: length_loop_offsets)
  have nth: "?recs ! i = fst (directory (CRC32 this) ?zd (files this ! i) (?offs ! i))"
    using i by (simp add: length_loop_offsets)
  have len: "k + m \<le> length (?recs ! i)"
    unfolding nth using k by (simp add: length_directory)
  have li: "i < length ?recs"
    using i by (simp add: length_loop_offsets)
  have "take m (drop (record_position (files this) i + k) out)
          = take m (drop (length (concat (take i ?recs)) + k) (concat ?recs @ rest))"
    unfolding out record_position_def lr [symmetric] lb [symmetric]
    by (simp add: add.assoc)
  also have "\<dots> = take m (drop k (?recs ! i))"
    using li len by (rule field_in_concat)
  finally show ?thesis unfolding nth .
qed

lemma serialize_eocd:
  assumes s: "serialize this now = Some (out, this')"
  shows "drop (record_position (files this) (length (files this))) out =
           [0x50, 0x4B, 0x05, 0x06, 0, 0, 0, 0]
           @ intToBytes (int (length (files this))) 2
           @ intToBytes (int (length (files this))) 2
           @ intToBytes (int (sum_list (map (\<lambda>f. 46 + length (name f)) (files this)))) 4
           @ [0, 0, 0, 0, 0, 0]"
proof -
  let ?zd = "\<lparr>zdate = getZipDate now, ztime = getZipTime now\<rparr>"
  let ?blocks = "concat (map (\<lambda>f. fst (header (CRC32 this) ?zd f) @ data f) (files this))"
  let ?recs = "concat (map2 (\<lambda>f x. fst (directory (CRC32 this) ?zd f x)) (files this)
                         (loop_offsets 0 0 (files this)))"
  let ?eocd = "[0x50, 0x4B, 0x05, 0x06, 0, 0, 0, 0]
           @ intToBytes (int (length (files this))) 2
           @ intToBytes (int (length (files this))) 2
           @ intToBytes (int (sum_list (map (\<lambda>f. 46 + length (name f)) (files this)))) 4
           @ [0, 0, 0, 0, 0, 0 :: 16 word]"
  have out: "out = (?blocks @ ?recs) @ ?eocd"
    using serialize_out [of this now] s by simp
  have lb: "length ?blocks = entry_position (files this) (length (files this))"
    by (simp add: entry_position_def length_concat_blocks)
  have lr: "length ?recs = sum_list (map (\<lambda>f. 46 + length (name f)) (files this))"
    by (rule length_concat_records) (simp add: length_loop_offsets)
  have rp: "record_position (files this) (length (files this)) = length (?blocks @ ?recs)"
    by (simp add: record_position_def lb lr)
  have g: "drop (length xs) (xs @ ys) = ys" for xs ys :: jsstring
    by simp
  show ?thesis
    unfolding out rp by (rule g)
qed

section \<open>Values at the sample inputs\<close>

lemma sample_time: "intToBytes (getZipTime sample_date) 2 = [0x0F, 0x0E]"
  by code_simp

lemma sample_day: "intToBytes (getZipDate sample_date) 2 = [0x3B, 0x59]"
  by code_simp

section \<open>The checksum\<close>

text \<open>
  Claim C4. With the default polynomial \<open>0xEDB88320\<close>, \<open>evaluate\<close> on the one-byte input
  \<open>[0x00]\<close> returns \<open>0xD202EF8D\<close>.
\<close>

theorem evaluate_zero_byte:
  "fst (evaluate (crc_initialize None) (ArgBytes [0x00])) = 0xD202EF8D"
proof -
  have i: "js_and (js_xor (js_xor 0 (- 1)) 0) 255 = 255"
    by code_simp
  have m: "MAGIC_NUMBER (crc_initialize None) = 0xEDB88320"
    by (simp add: crc_initialize_def)
  have t: "table_at (buildCRCTable (crc_initialize None)) 255 = 0x2D02EF8D"
    by (simp only: table_at_build m crc_bits_255)
  have r: "js_ushr (js_xor (js_xor (js_ushr (js_xor 0 (- 1)) 8) 0x2D02EF8D) (- 1)) 0 = 0xD202EF8D"
    by code_simp
  have n: "crc_table (crc_initialize None) = None"
    by (simp add: crc_initialize_def)
  show ?thesis
    by (simp add: evaluate_def Let_def n i t r)
qed

text \<open>
  Claim C5. \<open>evaluate\<close> on the empty byte sequence returns 0, for every polynomial and
  whether or not the table is cached already; the empty string gives the same.
\<close>

theorem evaluate_empty:
  "fst (evaluate c (ArgBytes [])) = 0 \<and> fst (evaluate c (ArgString [])) = 0"
proof -
  have r: "js_ushr (js_xor (js_xor 0 (- 1)) (- 1)) 0 = 0"
    by code_simp
  show ?thesis
    by (simp add: evaluate_def Let_def strToByte_def r)
qed

text \<open>
  Claim C10. For an array of integers between 0 and 255, \<open>_binToString\<close> followed by
  \<open>_strToByte\<close> gives the array back.
\<close>

theorem strToByte_binToString:
  "\<forall>b \<in> set array. 0 \<le> b \<and> b \<le> 255 \<Longrightarrow> strToByte (binToString array) = array"
proof -
  assume range: "\<forall>b \<in> set array. 0 \<le> b \<and> b \<le> 255"
  have one: "js_and (charCode (fromCharCode (js_and b 255))) 255 = b mod 256" for b
  proof -
    have "js_and (charCode (fromCharCode (js_and b 255))) 255 = take_bit 8 (b mod 256)"
      using uint_fromCharCode_byte [of b] by (simp add: js_and_255 charCode_def)
    then show ?thesis by (simp add: take_bit_eq_mod)
  qed
  have "strToByte (binToString array) = map (\<lambda>b. b mod 256) array"
    by (simp add: strToByte_def binToString_def one comp_def)
  also have "\<dots> = map (\<lambda>b. b) array"
    using range by (intro map_cong) auto
  finally show ?thesis by simp
qed

theorem strToByte_binToString_witness:
  "strToByte (binToString [0, 104, 255]) = [0, 104, 255]"
  using strToByte_binToString [of "[0, 104, 255]"] by simp

section \<open>The archive\<close>

text \<open>
  Claim C8. With no entries the archive is the 22 bytes of the end record: its signature,
  then disk numbers, both entry counts, the size and the offset of the central directory
  and the comment length, all zero.
\<close>

theorem serialize_no_entries:
  "files this = [] \<Longrightarrow>
   map_option fst (serialize this now) =
     Some [0x50, 0x4B, 0x05, 0x06, 0, 0, 0, 0, 0, 0, 0, 0, 0, 0, 0, 0, 0, 0, 0, 0, 0, 0]"
  using serialize_out [of this now] by (simp add: intToBytes_0_4 intToBytes_0_2)

theorem serialize_no_entries_witness:
  "files zipper_initialize = [] \<and>
   map_option fst (serialize zipper_initialize sample_date) =
     Some [0x50, 0x4B, 0x05, 0x06, 0, 0, 0, 0, 0, 0, 0, 0, 0, 0, 0, 0, 0, 0, 0, 0, 0, 0]"
proof -
  have e: "files zipper_initialize = []"
    by (simp add: zipper_initialize_def)
  show ?thesis
    using e serialize_no_entries [OF e, of sample_date] by simp
qed

text \<open>
  Claim C6. One serialization takes one timestamp, and its encoded time and date stand in
  the local file header of every entry (at bytes 10 and 12 of the header, which starts
  with the local signature at the entry's position) and in every central directory record
  (at bytes 12 and 14 of the record, which starts with the central signature).
\<close>

theorem serialize_one_timestamp:
  "\<exists>out this'. serialize this now = Some (out, this') \<and>
     (\<forall>i < length (files this).
        take 4 (drop (entry_position (files this) i) out) = [0x50, 0x4b, 0x03, 0x04]
      \<and> take 2 (drop (entry_position (files this) i + 10) out) = intToBytes (getZipTime now) 2
      \<and> take 2 (drop (entry_position (files this) i + 12) out) = intToBytes (getZipDate now) 2
      \<and> take 4 (drop (record_position (files this) i) out) = [0x50, 0x4B, 0x01, 0x02]
      \<and> take 2 (drop (record_position (files this) i + 12) out) = intToBytes (getZipTime now) 2
      \<and> take 2 (drop (record_position (files this) i + 14) out) = intToBytes (getZipDate now) 2)"
proof -
  obtain out this' where s: "serialize this now = Some (out, this')"
    using serialize_returns by blast
  have "take 4 (drop (entry_position (files this) i) out) = [0x50, 0x4b, 0x03, 0x04]
      \<and> take 2 (drop (entry_position (files this) i + 10) out) = intToBytes (getZipTime now) 2
      \<and> take 2 (drop (entry_position (files this) i + 12) out) = intToBytes (getZipDate now) 2
      \<and> take 4 (drop (record_position (files this) i) out) = [0x50, 0x4B, 0x01, 0x02]
      \<and> take 2 (drop (record_position (files this) i + 12) out) = intToBytes (getZipTime now) 2
      \<and> take 2 (drop (record_position (files this) i + 14) out) = intToBytes (getZipDate now) 2"
    if i: "i < length (files this)" for i
    using serialize_local_field [OF s i, of 0 4]
      serialize_local_field [OF s i, of 10 2]
      serialize_local_field [OF s i, of 12 2]
      serialize_record_field [OF s i, of 0 4]
      serialize_record_field [OF s i, of 12 2]
      serialize_record_field [OF s i, of 14 2]
    by (simp add: header_layout directory_layout)
  then show ?thesis using s by blast
qed

theorem serialize_one_timestamp_witness:
  "map_option (take 4 \<circ> drop 10 \<circ> fst) (serialize one_file sample_date)
     = Some [0x0F, 0x0E, 0x3B, 0x59]
   \<and> map_option (take 4 \<circ> drop 45 \<circ> fst) (serialize one_file sample_date)
     = Some [0x0F, 0x0E, 0x3B, 0x59]"
proof -
  obtain out this' where s: "serialize one_file sample_date = Some (out, this')"
    and f: "\<forall>i < length (files one_file).
        take 4 (drop (entry_position (files one_file) i) out) = [0x50, 0x4b, 0x03, 0x04]
      \<and> take 2 (drop (entry_position (files one_file) i + 10) out) = intToBytes (getZipTime sample_date) 2
      \<and> take 2 (drop (entry_position (files one_file) i + 12) out) = intToBytes (getZipDate sample_date) 2
      \<and> take 4 (drop (record_position (files one_file) i) out) = [0x50, 0x4B, 0x01, 0x02]
      \<and> take 2 (drop (record_position (files one_file) i + 12) out) = intToBytes (getZipTime sample_date) 2
      \<and> take 2 (drop (record_position (files one_file) i + 14) out) = intToBytes (getZipDate sample_date) 2"
    using serialize_one_timestamp [of one_file sample_date] by blast
  have n: "0 < length (files one_file)"
    by (simp add: one_file_def)
  have e: "entry_position (files one_file) 0 = 0"
    by (simp add: entry_position_def)
  have r: "record_position (files one_file) 0 = 33"
    by (simp add: record_position_def entry_position_def one_file_def block_length_def
          sample_file_def binToString_def)
  have t: "take 2 (drop 10 out) = [0x0F, 0x0E]" "take 2 (drop 12 out) = [0x3B, 0x59]"
          "take 2 (drop 45 out) = [0x0F, 0x0E]" "take 2 (drop 47 out) = [0x3B, 0x59]"
    using f [rule_format, OF n] by (simp_all add: e r sample_time sample_day)
  have j: "take 4 (drop k out) = take 2 (drop k out) @ take 2 (drop (k + 2) out)" for k
    by (metis add.commute drop_drop numeral_Bit0 take_add)
  show ?thesis
    using t by (simp add: s j)
qed

section \<open>The two public methods\<close>

text \<open>
  Claim C9. When the three arguments pass the validation and the target record exists,
  \<open>write\<close> throws the unsupported-platform error: it returns no attachment identifier, and
  the platform, with the attachments written to it, is as before the call.
\<close>

theorem write_unsupported_platform:
  "\<not> nil table \<Longrightarrow> tableExists p (str_of table) \<Longrightarrow>
   \<not> nil record \<Longrightarrow> isEligibleSysID p (str_of record) \<Longrightarrow>
   \<not> nil filename \<Longrightarrow> record_exists p (str_of table) (str_of record) \<Longrightarrow>
   map_option fst (zipper_write p this table record filename) = Some (Inl UnsupportedPlatform)
   \<and> map_option (snd \<circ> snd) (zipper_write p this table record filename) = Some p"
proof -
  assume a: "\<not> nil table" "tableExists p (str_of table)" "\<not> nil record"
    "isEligibleSysID p (str_of record)" "\<not> nil filename"
    "record_exists p (str_of table) (str_of record)"
  obtain out this' where s: "serialize this (clock p) = Some (out, this')"
    using serialize_returns by blast
  show ?thesis
    using a by (simp add: zipper_write_def Let_def s)
qed

theorem write_unsupported_platform_witness:
  "map_option fst (zipper_write sample_platform one_file (Some [0x74]) (Some [0x72]) (Some [0x7A]))
     = Some (Inl UnsupportedPlatform)
   \<and> map_option (written \<circ> snd \<circ> snd)
       (zipper_write sample_platform one_file (Some [0x74]) (Some [0x72]) (Some [0x7A]))
     = Some []"
proof -
  have w: "map_option (written \<circ> snd \<circ> snd) x = Some []"
    if "map_option (snd \<circ> snd) x = Some sample_platform" for x :: "((error + jsstring) \<times> zipper \<times> platform) option"
    using that by (cases x) (auto simp: sample_platform_def)
  have "map_option fst (zipper_write sample_platform one_file (Some [0x74]) (Some [0x72]) (Some [0x7A]))
          = Some (Inl UnsupportedPlatform)
        \<and> map_option (snd \<circ> snd)
            (zipper_write sample_platform one_file (Some [0x74]) (Some [0x72]) (Some [0x7A]))
          = Some sample_platform"
    by (rule write_unsupported_platform) (simp_all add: nil_def str_of_def sample_platform_def)
  then show ?thesis using w by blast
qed



section \<open>Offsets\<close>

text \<open>
  Claim C1 at three entries, each a file named \<open>a\<close> with two bytes of data (a block of 33
  bytes). The third local header starts at byte 66, where its signature stands. The third
  central directory record starts at byte 193, and the offset it records (bytes 42 to 45
  of the record) is 99: the loop adds the length of the whole output so far to \<open>offset\<close>
  in every round, so after two rounds it holds 33 + 66. The second entry, at byte 33, is
  still recorded at 33.
\<close>

theorem third_entry_offset:
  "entry_position (files three_files) 2 = 66
   \<and> map_option (take 4 \<circ> drop 66 \<circ> fst) (serialize three_files sample_date)
       = Some [0x50, 0x4b, 0x03, 0x04]
   \<and> record_position (files three_files) 2 = 193
   \<and> map_option (take 4 \<circ> drop 193 \<circ> fst) (serialize three_files sample_date)
       = Some [0x50, 0x4B, 0x01, 0x02]
   \<and> map_option (map uint \<circ> take 4 \<circ> drop 235 \<circ> fst) (serialize three_files sample_date)
       = Some [99, 0, 0, 0]
   \<and> entry_position (files three_files) 1 = 33
   \<and> record_position (files three_files) 1 = 146
   \<and> map_option (map uint \<circ> take 4 \<circ> drop 188 \<circ> fst) (serialize three_files sample_date)
       = Some [33, 0, 0, 0]"
proof -
  obtain out this' where s: "serialize three_files sample_date = Some (out, this')"
    using serialize_returns by blast
  have i: "2 < length (files three_files)"
    by (simp add: three_files_def)
  have b: "block_length sample_file = 33"
    by (simp add: block_length_def sample_file_def binToString_def)
  have n: "length (name sample_file) = 1"
    by (simp add: sample_file_def)
  have fs: "files three_files = [sample_file, sample_file, sample_file]"
    by (simp add: three_files_def)
  have ep: "entry_position (files three_files) 2 = 66"
    by (simp add: entry_position_def fs b)
  have rp: "record_position (files three_files) 2 = 193"
    by (simp add: record_position_def entry_position_def fs b n)
  have off: "loop_offsets 0 0 (files three_files) ! 2 = 99"
    by (simp add: fs b)
  have i1: "1 < length (files three_files)"
    by (simp add: three_files_def)
  have ep1: "entry_position (files three_files) 1 = 33"
    by (simp add: entry_position_def fs b)
  have rp1: "record_position (files three_files) (Suc 0) = 146"
    by (simp add: record_position_def entry_position_def fs b n)
  have off1: "loop_offsets 0 0 (files three_files) ! Suc 0 = 33"
    by (simp add: fs b)
  have "take 4 (drop 66 out) = [0x50, 0x4b, 0x03, 0x04]"
    using serialize_local_field [OF s i, of 0 4] by (simp add: ep header_layout)
  moreover have "take 4 (drop 193 out) = [0x50, 0x4B, 0x01, 0x02]"
    using serialize_record_field [OF s i, of 0 4] by (simp add: rp directory_layout)
  moreover have "map uint (take 4 (drop 235 out)) = [99, 0, 0, 0]"
    using serialize_record_field [OF s i, of 42 4]
    by (simp add: rp off directory_layout uint_intToBytes_4)
  moreover have "map uint (take 4 (drop 188 out)) = [33, 0, 0, 0]"
    using serialize_record_field [OF s i1, of 42 4]
    by (simp add: rp1 off1 directory_layout uint_intToBytes_4)
  ultimately show ?thesis
    using ep rp ep1 rp1 by (simp add: s)
qed

text \<open>
  Claim C2 at one entry, the same file. The blocks take 33 bytes and the archive 102; the
  end record starts at byte 80. In it the size of the central directory is 47 and the
  offset of the central directory is 0, not 33: \<open>write\<close> passes the directory string where
  the offset is expected, and the string converts to 0.
\<close>

theorem end_record_offset:
  "entry_position (files one_file) 1 = 33
   \<and> map_option (length \<circ> fst) (serialize one_file sample_date) = Some 102
   \<and> map_option (take 4 \<circ> drop 80 \<circ> fst) (serialize one_file sample_date)
       = Some [0x50, 0x4B, 0x05, 0x06]
   \<and> map_option (map uint \<circ> take 4 \<circ> drop 92 \<circ> fst) (serialize one_file sample_date)
       = Some [47, 0, 0, 0]
   \<and> map_option (map uint \<circ> take 4 \<circ> drop 96 \<circ> fst) (serialize one_file sample_date)
       = Some [0, 0, 0, 0]"
proof -
  obtain out this' where s: "serialize one_file sample_date = Some (out, this')"
    using serialize_returns by blast
  have b: "block_length sample_file = 33"
    by (simp add: block_length_def sample_file_def binToString_def)
  have n: "length (name sample_file) = 1"
    by (simp add: sample_file_def)
  have fs: "files one_file = [sample_file]"
    by (simp add: one_file_def)
  have ep: "entry_position (files one_file) 1 = 33"
    by (simp add: entry_position_def fs b)
  have rp: "record_position (files one_file) (length (files one_file)) = 80"
    by (simp add: record_position_def entry_position_def fs b n)
  have e: "drop 80 out = [0x50, 0x4B, 0x05, 0x06, 0, 0, 0, 0]
             @ intToBytes 1 2 @ intToBytes 1 2 @ intToBytes 47 4 @ [0, 0, 0, 0, 0, 0]"
    using serialize_eocd [OF s] by (simp add: rp) (simp add: fs n)
  have l: "length (drop 80 out) = 22"
    unfolding e by (simp add: length_intToBytes)
  then have len: "length out = 102"
    by simp
  have d: "drop (80 + k) out = drop k (drop 80 out)" for k
    by (simp add: add.commute)
  have "take 4 (drop 80 out) = [0x50, 0x4B, 0x05, 0x06]"
    unfolding e by simp
  moreover have "map uint (take 4 (drop 92 out)) = [47, 0, 0, 0]"
    using d [of 12] unfolding e by (simp add: length_intToBytes uint_intToBytes_4)
  moreover have "map uint (take 4 (drop 96 out)) = [0, 0, 0, 0]"
    using d [of 16] unfolding e by (simp add: length_intToBytes)
  ultimately show ?thesis
    using ep len by (simp add: s)
qed

end
